theory Spec2Isabelle
  imports Main "HOL-Library.Word" "HOL-Library.Signed_Division"
begin

unbundle bit_operations_syntax

section \<open>Machine integers of the Go source\<close>

text \<open>
  The bitmap of \<^verbatim>\<open>bitmap.go\<close> works on Go's fixed-width integers. \<^verbatim>\<open>uint64\<close> and
  \<^verbatim>\<open>uint32\<close> are words read unsigned; \<^verbatim>\<open>int64\<close> is a 64-bit word read in two's
  complement (\<open>sint\<close>), compared with the signed orders \<open><s\<close> and \<open>\<le>s\<close>. All arithmetic
  wraps around, as Go's does. Go's \<^verbatim>\<open>int\<close> (slice indices, \<^verbatim>\<open>lastrlw\<close>) is taken to be
  64 bits wide, as on the amd64 target of the README; indices are far from its bounds and
  are modelled as \<open>int\<close> and \<open>nat\<close>.
\<close>

type_synonym uint64 = "64 word"
type_synonym uint32 = "32 word"
type_synonym int64 = "64 word"
type_synonym byte = "8 word"

text \<open>Go's \<^verbatim>\<open>/\<close> and \<^verbatim>\<open>%\<close> on \<^verbatim>\<open>int64\<close> truncate towards zero.\<close>

definition int64_div :: "int64 \<Rightarrow> int64 \<Rightarrow> int64" where
  "int64_div a b = word_of_int (sint a sdiv sint b)"

definition int64_rem :: "int64 \<Rightarrow> int64 \<Rightarrow> int64" where
  "int64_rem a b = word_of_int (sint a smod sint b)"

text \<open>
  Go's shift \<^verbatim>\<open>x << s\<close> with an unsigned 64-bit count \<open>s\<close>: a count of 64 or more
  gives 0, which is what \<open>push_bit\<close> does on a 64-bit word.
\<close>

definition shl64 :: "uint64 \<Rightarrow> uint64 \<Rightarrow> uint64" where
  "shl64 x s = push_bit (unat s) x"

section \<open>The running length word\<close>

definition allones :: uint64 where
  "allones = NOT 0"

definition maxUint31 :: uint32 where
  "maxUint31 = drop_bit 1 (NOT 0)"

definition MaxUint32 :: uint32 where
  "MaxUint32 = NOT 0"

definition bmask :: uint64 where
  "bmask = push_bit 63 1"

definition kmask :: uint64 where
  "kmask = push_bit 31 (drop_bit 32 (NOT 0))"

definition lmask :: uint64 where
  "lmask = drop_bit 33 (NOT 0)"

definition newRlw :: "bool \<Rightarrow> uint32 \<Rightarrow> uint32 \<Rightarrow> uint64" where
  "newRlw b k l = push_bit 63 (if b then 1 else 0) OR push_bit 31 (ucast k) OR ucast l"

definition rlw_b :: "uint64 \<Rightarrow> bool" where
  "rlw_b r = (drop_bit 63 (r AND bmask) \<noteq> 0)"

definition rlw_k :: "uint64 \<Rightarrow> uint32" where
  "rlw_k r = ucast (drop_bit 31 (r AND kmask))"

definition rlw_l :: "uint64 \<Rightarrow> uint32" where
  "rlw_l r = ucast (r AND lmask)"

definition setk :: "uint64 \<Rightarrow> uint32 \<Rightarrow> uint64" where
  "setk r k = (r AND NOT kmask) OR push_bit 31 (ucast k)"

definition setl :: "uint64 \<Rightarrow> uint32 \<Rightarrow> uint64" where
  "setl r l = (r AND NOT lmask) OR ucast l"

definition setbit :: "uint64 \<Rightarrow> uint64 \<Rightarrow> uint64" where
  "setbit word idx = word OR shl64 1 (64 - idx - 1)"

section \<open>The bitmap\<close>

record Bitmap =
  n :: int64
  w :: "uint64 list"
  lastrlw :: int

datatype error =
    ErrInvalidBitSet
  | IndexOutOfRange
  | ErrReadBits
  | ErrReadWords
  | ErrReadWord nat
  | ErrReadLastRlw

definition New :: Bitmap where
  "New = \<lparr>n = 0, w = [], lastrlw = - 1\<rparr>"

definition Reset :: "Bitmap \<Rightarrow> Bitmap" where
  "Reset b = \<lparr>n = 0, w = [], lastrlw = - 1\<rparr>"

definition Bits :: "Bitmap \<Rightarrow> uint32" where
  "Bits b = ucast (n b)"

definition size_bits :: "Bitmap \<Rightarrow> int64" where
  "size_bits b =
     (let bn = int64_div (n b) 64 * 64
      in if int64_rem (n b) 64 \<noteq> 0 then bn + 64 else bn)"

subsection \<open>Set\<close>

text \<open>
  \<^verbatim>\<open>Set\<close> mutates the bitmap in place and returns an error value; here it returns the
  error or the bitmap after the call. The only index that can be out of range is
  \<^verbatim>\<open>b.w[b.lastrlw]\<close>, read before anything is written when \<^verbatim>\<open>lastrlw\<close> is not
  negative; Go panics there, which is the result \<open>Inl IndexOutOfRange\<close>. The three
  assignments of each branch are applied in the order of the source.
\<close>

definition Set_inside :: "Bitmap \<Rightarrow> int64 \<Rightarrow> Bitmap" where
  "Set_inside b pos =
     (let last = length (w b) - 1;
          r = w b ! nat (lastrlw b);
          idx = int64_rem pos 64;
          ws = (w b)[last := setbit (w b ! last) idx]
      in if ws ! last = allones then
           if rlw_b r \<and> rlw_l r = 1 \<and> rlw_k r < MaxUint32 then
             let r1 = setl (setk r (rlw_k r + 1)) 0
             in \<lparr>n = pos + 1, w = take last (ws[nat (lastrlw b) := r1]), lastrlw = lastrlw b\<rparr>
           else
             let r1 = setl r (rlw_l r - 1)
             in \<lparr>n = pos + 1,
                 w = ws[last := newRlw True 1 0, nat (lastrlw b) := r1],
                 lastrlw = int last\<rparr>
         else \<lparr>n = pos + 1, w = ws, lastrlw = lastrlw b\<rparr>)"

definition Set_beyond :: "Bitmap \<Rightarrow> int64 \<Rightarrow> Bitmap" where
  "Set_beyond b pos =
     (let r = w b ! nat (lastrlw b);
          idx = int64_rem pos 64;
          k = int64_div (pos - size_bits b) 64;
          literal = setbit 0 idx
      in if k = 0 \<and> rlw_l r + 1 \<le> maxUint31 then
           let r1 = setl r (rlw_l r + 1)
           in \<lparr>n = pos + 1, w = (w b)[nat (lastrlw b) := r1] @ [literal], lastrlw = lastrlw b\<rparr>
         else if 0 <s k \<and> ucast (rlw_k r) + k \<le>s ucast MaxUint32 then
           let r1 = setl (setk r (rlw_k r + ucast k)) (rlw_l (setk r (rlw_k r + ucast k)) + 1)
           in \<lparr>n = pos + 1, w = (w b)[nat (lastrlw b) := r1] @ [literal], lastrlw = lastrlw b\<rparr>
         else
           let ws = w b @ [newRlw False (ucast (k - ucast MaxUint32 - 1)) 1]
           in \<lparr>n = pos + 1,
               w = ws[nat (lastrlw b) := r] @ [literal],
               lastrlw = int (length ws) - 1\<rparr>)"

definition Set :: "Bitmap \<Rightarrow> int64 \<Rightarrow> error + Bitmap" where
  "Set b pos =
     (if pos <s n b then Inl ErrInvalidBitSet
      else
        let b1 = (if lastrlw b < 0 then b\<lparr>w := w b @ [newRlw False 0 0], lastrlw := 0\<rparr> else b)
        in if \<not> nat (lastrlw b1) < length (w b1) then Inl IndexOutOfRange
           else if pos <s size_bits b1 then Inr (Set_inside b1 pos)
           else Inr (Set_beyond b1 pos))"

text \<open>
  The same call with the receiver made explicit: the error value returned (\<open>None\<close> for
  \<^verbatim>\<open>nil\<close>) together with the bitmap that \<^verbatim>\<open>b\<close> holds when the call ends, each
  write to \<^verbatim>\<open>*b\<close> applied where the source makes it. \<open>Set\<close> above is its result.
\<close>

definition Set_state :: "Bitmap \<Rightarrow> int64 \<Rightarrow> error option \<times> Bitmap" where
  "Set_state b pos =
     (if pos <s n b then (Some ErrInvalidBitSet, b)
      else
        let b1 = (if lastrlw b < 0 then b\<lparr>w := w b @ [newRlw False 0 0], lastrlw := 0\<rparr> else b)
        in if \<not> nat (lastrlw b1) < length (w b1) then (Some IndexOutOfRange, b1)
           else if pos <s size_bits b1 then (None, Set_inside b1 pos)
           else (None, Set_beyond b1 pos))"

fun SetAll :: "Bitmap \<Rightarrow> int64 list \<Rightarrow> error + Bitmap" where
  "SetAll b [] = Inr b"
| "SetAll b (p # ps) = (case Set b p of Inl e \<Rightarrow> Inl e | Inr b1 \<Rightarrow> SetAll b1 ps)"

subsection \<open>Get\<close>

text \<open>
  The inner loop of \<^verbatim>\<open>Get\<close> over the literal words of one block, from \<open>j\<close> up to \<open>l\<close>:
  it either returns from \<^verbatim>\<open>Get\<close> (\<open>Inl\<close>, a bit or the panic of \<^verbatim>\<open>b.w[i+j]\<close> out of
  range) or falls through with the advanced offset (\<open>Inr\<close>).
\<close>

function Get_literals ::
  "uint64 list \<Rightarrow> int64 \<Rightarrow> nat \<Rightarrow> nat \<Rightarrow> nat \<Rightarrow> int64 \<Rightarrow> (error + bool) + int64" where
  "Get_literals ws pos i l j acc =
     (if j \<le> l then
        if pos <s acc + 64 then
          Inl (if i + j < length ws
               then Inr (ws ! (i + j) AND shl64 1 (63 - (pos - acc)) \<noteq> 0)
               else Inl IndexOutOfRange)
        else Get_literals ws pos i l (j + 1) (acc + 64)
      else Inr acc)"
  by pat_completeness auto
termination
  by (relation "measure (\<lambda>(ws, pos, i, l, j, acc). Suc l - j)") auto

function Get_blocks :: "uint64 list \<Rightarrow> int64 \<Rightarrow> nat \<Rightarrow> int64 \<Rightarrow> error + bool" where
  "Get_blocks ws pos i acc =
     (if i < length ws then
        let word = ws ! i;
            kb = ucast (rlw_k word) * 64
        in if pos <s acc + kb then Inr (rlw_b word)
           else
             let acc1 = acc + kb;
                 l = ucast (rlw_l word)
             in if 0 <s l \<and> pos <s acc1 + l * 64 then
                  case Get_literals ws pos i (unat (rlw_l word)) 1 acc1 of
                    Inl res \<Rightarrow> res
                  | Inr acc2 \<Rightarrow> Get_blocks ws pos (i + unat (rlw_l word) + 1) acc2
                else Get_blocks ws pos (i + unat (rlw_l word) + 1) (acc1 + l * 64)
      else Inr False)"
  by pat_completeness auto
termination
  by (relation "measure (\<lambda>(ws, pos, i, acc). length ws - i)") auto

definition Get :: "Bitmap \<Rightarrow> int64 \<Rightarrow> error + bool" where
  "Get b pos = (if n b \<le>s pos then Inr False else Get_blocks (w b) pos 0 0)"

subsection \<open>Block traversal\<close>

text \<open>
  Walking the word array from index \<open>i\<close> in steps of one RLW and its literal words:
  \<open>Some\<close> of the index of the last RLW visited (\<open>prev\<close> when no block is left) if the
  walk ends exactly at the end of the array, \<open>None\<close> if a step goes past the end.
\<close>

function last_block :: "uint64 list \<Rightarrow> nat \<Rightarrow> int \<Rightarrow> int option" where
  "last_block ws i prev =
     (if i < length ws then last_block ws (i + 1 + unat (rlw_l (ws ! i))) (int i)
      else if i = length ws then Some prev
      else None)"
  by pat_completeness auto
termination
  by (relation "measure (\<lambda>(ws, i, prev). length ws - i)") auto

declare last_block.simps [simp del]

section \<open>Serialization\<close>

text \<open>
  The byte orders are those of Go's \<^verbatim>\<open>encoding/binary\<close>. The reader is the list of the
  bytes still to be read, and the writer a buffer that accepts every write, so \<^verbatim>\<open>Write\<close>
  returns the bytes written together with the count the source returns.
\<close>

datatype ByteOrder = BigEndian | LittleEndian

definition PutUint32 :: "ByteOrder \<Rightarrow> uint32 \<Rightarrow> byte list" where
  "PutUint32 bo v =
     (case bo of
        BigEndian \<Rightarrow> [ucast (drop_bit 24 v), ucast (drop_bit 16 v), ucast (drop_bit 8 v), ucast v]
      | LittleEndian \<Rightarrow> [ucast v, ucast (drop_bit 8 v), ucast (drop_bit 16 v), ucast (drop_bit 24 v)])"

definition PutUint64 :: "ByteOrder \<Rightarrow> uint64 \<Rightarrow> byte list" where
  "PutUint64 bo v =
     (case bo of
        BigEndian \<Rightarrow>
          [ucast (drop_bit 56 v), ucast (drop_bit 48 v), ucast (drop_bit 40 v), ucast (drop_bit 32 v),
           ucast (drop_bit 24 v), ucast (drop_bit 16 v), ucast (drop_bit 8 v), ucast v]
      | LittleEndian \<Rightarrow>
          [ucast v, ucast (drop_bit 8 v), ucast (drop_bit 16 v), ucast (drop_bit 24 v),
           ucast (drop_bit 32 v), ucast (drop_bit 40 v), ucast (drop_bit 48 v), ucast (drop_bit 56 v)])"

definition Uint32 :: "ByteOrder \<Rightarrow> byte list \<Rightarrow> uint32" where
  "Uint32 bo b =
     (case bo of
        BigEndian \<Rightarrow>
          ucast (b ! 3) OR push_bit 8 (ucast (b ! 2)) OR push_bit 16 (ucast (b ! 1))
            OR push_bit 24 (ucast (b ! 0))
      | LittleEndian \<Rightarrow>
          ucast (b ! 0) OR push_bit 8 (ucast (b ! 1)) OR push_bit 16 (ucast (b ! 2))
            OR push_bit 24 (ucast (b ! 3)))"

definition Uint64 :: "ByteOrder \<Rightarrow> byte list \<Rightarrow> uint64" where
  "Uint64 bo b =
     (case bo of
        BigEndian \<Rightarrow>
          ucast (b ! 7) OR push_bit 8 (ucast (b ! 6)) OR push_bit 16 (ucast (b ! 5))
            OR push_bit 24 (ucast (b ! 4)) OR push_bit 32 (ucast (b ! 3))
            OR push_bit 40 (ucast (b ! 2)) OR push_bit 48 (ucast (b ! 1))
            OR push_bit 56 (ucast (b ! 0))
      | LittleEndian \<Rightarrow>
          ucast (b ! 0) OR push_bit 8 (ucast (b ! 1)) OR push_bit 16 (ucast (b ! 2))
            OR push_bit 24 (ucast (b ! 3)) OR push_bit 32 (ucast (b ! 4))
            OR push_bit 40 (ucast (b ! 5)) OR push_bit 48 (ucast (b ! 6))
            OR push_bit 56 (ucast (b ! 7)))"

text \<open>
  \<^verbatim>\<open>readUint32\<close> and \<^verbatim>\<open>readUint64\<close> fail when fewer bytes are left than they need;
  otherwise they return the value and the rest of the input.
\<close>

definition readUint32 :: "byte list \<Rightarrow> ByteOrder \<Rightarrow> (uint32 \<times> byte list) option" where
  "readUint32 r bo = (if length r < 4 then None else Some (Uint32 bo (take 4 r), drop 4 r))"

definition readUint64 :: "byte list \<Rightarrow> ByteOrder \<Rightarrow> (uint64 \<times> byte list) option" where
  "readUint64 r bo = (if length r < 8 then None else Some (Uint64 bo (take 8 r), drop 8 r))"

text \<open>The loop of \<^verbatim>\<open>FromReader\<close> over the words, \<open>i\<close> words already read.\<close>

fun read_words :: "nat \<Rightarrow> byte list \<Rightarrow> ByteOrder \<Rightarrow> nat \<Rightarrow> error + (uint64 list \<times> byte list)" where
  "read_words 0 r bo i = Inr ([], r)"
| "read_words (Suc m) r bo i =
     (case readUint64 r bo of
        None \<Rightarrow> Inl (ErrReadWord (i + 1))
      | Some (x, r1) \<Rightarrow>
          (case read_words m r1 bo (i + 1) of
             Inl e \<Rightarrow> Inl e
           | Inr (xs, r2) \<Rightarrow> Inr (x # xs, r2)))"

definition FromReader :: "byte list \<Rightarrow> ByteOrder \<Rightarrow> error + Bitmap" where
  "FromReader r bo =
     (case readUint32 r bo of
        None \<Rightarrow> Inl ErrReadBits
      | Some (bits, r1) \<Rightarrow>
          (case readUint32 r1 bo of
             None \<Rightarrow> Inl ErrReadWords
           | Some (words, r2) \<Rightarrow>
               (case read_words (unat words) r2 bo 0 of
                  Inl e \<Rightarrow> Inl e
                | Inr (ws, r3) \<Rightarrow>
                    (case readUint32 r3 bo of
                       None \<Rightarrow> Inl ErrReadLastRlw
                     | Some (lr, r4) \<Rightarrow>
                         Inr \<lparr>n = ucast bits, w = ws, lastrlw = uint lr\<rparr>))))"

definition FromBytes :: "byte list \<Rightarrow> ByteOrder \<Rightarrow> error + Bitmap" where
  "FromBytes b bo = FromReader b bo"

definition Write :: "Bitmap \<Rightarrow> ByteOrder \<Rightarrow> byte list \<times> int64" where
  "Write b bo =
     (PutUint32 bo (Bits b) @ PutUint32 bo (word_of_nat (length (w b)))
        @ concat (map (PutUint64 bo) (w b)) @ PutUint32 bo (word_of_int (lastrlw b)),
      4 * 3 + word_of_nat (length (w b)) * 8)"

section \<open>Facts about the running length word\<close>

lemma rlw_b_bit: "rlw_b r = bit r 63"
proof -
  have "drop_bit 63 (r AND bmask) = (if bit r 63 then 1 else 0)"
    by (rule bit_eqI) (auto simp add: bmask_def bit_simps dest: bit_imp_le_length intro!: gr0I)
  then show ?thesis
    by (simp add: rlw_b_def)
qed

lemma bit_rlw_k: "bit (rlw_k r) i = (i < 32 \<and> bit r (i + 31))"
  by (auto simp add: rlw_k_def kmask_def bit_simps add.commute)

lemma bit_rlw_l: "bit (rlw_l r) i = (i < 31 \<and> bit r i)"
  by (auto simp add: rlw_l_def lmask_def bit_simps)

lemma bit_newRlw:
  "bit (newRlw b k l) i = (i < 64 \<and> ((i = 63 \<and> b) \<or> (31 \<le> i \<and> bit k (i - 31)) \<or> bit l i))"
  by (auto simp add: newRlw_def bit_simps dest: bit_imp_le_length)

lemma bit_setk:
  "bit (setk r k) i = (i < 64 \<and> (if 31 \<le> i \<and> i < 63 then bit k (i - 31) else bit r i))"
  by (auto simp add: setk_def kmask_def bit_simps dest: bit_imp_le_length)

lemma bit_setl: "bit (setl r l) i = (i < 64 \<and> ((31 \<le> i \<and> bit r i) \<or> bit l i))"
  by (auto simp add: setl_def lmask_def bit_simps dest: bit_imp_le_length)

lemma le_maxUint31_take_bit:
  assumes "l \<le> maxUint31"
  shows "take_bit 31 l = l"
proof -
  have "uint maxUint31 = 2147483647"
    by (simp add: maxUint31_def mask_eq_exp_minus_1)
  then have "uint l < 2 ^ 31"
    using assms by (simp add: word_le_def)
  then show ?thesis
    by (simp add: take_bit_eq_mask mask_eq_iff)
qed

lemma le_maxUint31_bit: "l \<le> maxUint31 \<Longrightarrow> bit l i \<Longrightarrow> i < 31"
  by (metis le_maxUint31_take_bit bit_take_bit_iff)

lemma rlw_b_newRlw: "rlw_b (newRlw b k l) = b"
  by (auto simp add: rlw_b_bit bit_newRlw dest: bit_imp_le_length)

lemma rlw_k_newRlw: "l \<le> maxUint31 \<Longrightarrow> rlw_k (newRlw b k l) = k"
  by (rule bit_eqI) (auto simp add: bit_rlw_k bit_newRlw dest: bit_imp_le_length le_maxUint31_bit)

lemma rlw_l_newRlw: "l \<le> maxUint31 \<Longrightarrow> rlw_l (newRlw b k l) = l"
  by (rule bit_eqI) (auto simp add: bit_rlw_l bit_newRlw dest: bit_imp_le_length le_maxUint31_bit)

lemma rlw_b_setk: "rlw_b (setk r k) = rlw_b r"
  by (simp add: rlw_b_bit bit_setk)

lemma rlw_l_setk: "rlw_l (setk r k) = rlw_l r"
  by (rule bit_eqI) (auto simp add: bit_rlw_l bit_setk)

lemma rlw_k_setk: "rlw_k (setk r k) = k"
  by (rule bit_eqI) (auto simp add: bit_rlw_k bit_setk dest: bit_imp_le_length)

lemma rlw_b_setl: "rlw_b (setl r l) = rlw_b r"
  by (auto simp add: rlw_b_bit bit_setl dest: bit_imp_le_length)

lemma rlw_k_setl: "l \<le> maxUint31 \<Longrightarrow> rlw_k (setl r l) = rlw_k r"
  by (rule bit_eqI) (auto simp add: bit_rlw_k bit_setl dest: bit_imp_le_length le_maxUint31_bit)

lemma rlw_l_setl: "l \<le> maxUint31 \<Longrightarrow> rlw_l (setl r l) = l"
  by (rule bit_eqI) (auto simp add: bit_rlw_l bit_setl dest: bit_imp_le_length le_maxUint31_bit)


lemma newRlw_fields: "newRlw (rlw_b r) (rlw_k r) (rlw_l r) = r"
proof (rule bit_eqI)
  fix i :: nat
  show "bit (newRlw (rlw_b r) (rlw_k r) (rlw_l r)) i = bit r i"
    by (cases "i = 63")
      (auto simp add: bit_newRlw bit_rlw_l bit_rlw_k rlw_b_bit dest: bit_imp_le_length)
qed

lemma setk_eq_newRlw: "setk r k = newRlw (rlw_b r) k (rlw_l r)"
proof (rule bit_eqI)
  fix i :: nat
  show "bit (setk r k) i = bit (newRlw (rlw_b r) k (rlw_l r)) i"
    by (cases "i = 63")
      (auto simp add: bit_newRlw bit_rlw_l bit_setk rlw_b_bit dest: bit_imp_le_length)
qed

lemma setl_eq_newRlw: "l \<le> maxUint31 \<Longrightarrow> setl r l = newRlw (rlw_b r) (rlw_k r) l"
proof (rule bit_eqI)
  fix i :: nat
  assume "l \<le> maxUint31"
  then show "bit (setl r l) i = bit (newRlw (rlw_b r) (rlw_k r) l) i"
    by (cases "i = 63")
      (auto simp add: bit_newRlw bit_rlw_k bit_setl rlw_b_bit dest: bit_imp_le_length le_maxUint31_bit)
qed

section \<open>Facts about the byte orders\<close>

lemma Uint32_PutUint32: "Uint32 bo (PutUint32 bo v) = v"
proof (rule bit_eqI)
  fix i :: nat
  assume "possible_bit TYPE(32 word) i"
  then have "i < 32" by simp
  then have "i < 8 \<or> (\<exists>m<8. i = 8 + m) \<or> (\<exists>m<8. i = 16 + m) \<or> (\<exists>m<8. i = 24 + m)"
    by presburger
  then consider "i < 8" | m where "i = 8 + m" "m < 8" | m where "i = 16 + m" "m < 8"
    | m where "i = 24 + m" "m < 8"
    by blast
  then show "bit (Uint32 bo (PutUint32 bo v)) i = bit v i"
    by cases (cases bo; simp add: Uint32_def PutUint32_def bit_simps)+
qed

lemma Uint64_PutUint64: "Uint64 bo (PutUint64 bo v) = v"
proof (rule bit_eqI)
  fix i :: nat
  assume "possible_bit TYPE(64 word) i"
  then have "i < 64" by simp
  then have "i < 8 \<or> (\<exists>m<8. i = 8 + m) \<or> (\<exists>m<8. i = 16 + m) \<or> (\<exists>m<8. i = 24 + m)
     \<or> (\<exists>m<8. i = 32 + m) \<or> (\<exists>m<8. i = 40 + m) \<or> (\<exists>m<8. i = 48 + m) \<or> (\<exists>m<8. i = 56 + m)"
    by presburger
  then consider "i < 8" | m where "i = 8 + m" "m < 8" | m where "i = 16 + m" "m < 8"
    | m where "i = 24 + m" "m < 8" | m where "i = 32 + m" "m < 8" | m where "i = 40 + m" "m < 8"
    | m where "i = 48 + m" "m < 8" | m where "i = 56 + m" "m < 8"
    by blast
  then show "bit (Uint64 bo (PutUint64 bo v)) i = bit v i"
    by cases (cases bo; simp add: Uint64_def PutUint64_def bit_simps)+
qed

section \<open>Facts about Set\<close>

lemma sint_Suc:
  fixes pos :: int64
  assumes "sint pos < 2 ^ 63 - 1"
  shows "sint (pos + 1) = sint pos + 1"
proof -
  have "- (2 ^ 63) \<le> sint pos"
    using sint_ge [of pos] by simp
  with assms show ?thesis
    by (simp add: sint_word_ariths signed_take_bit_int_eq_self)
qed

lemma n_Set_inside: "n (Set_inside b pos) = pos + 1"
  by (simp add: Set_inside_def Let_def)

lemma n_Set_beyond: "n (Set_beyond b pos) = pos + 1"
  by (simp add: Set_beyond_def Let_def)

lemma Set_result_of_state:
  "Set b pos = (case Set_state b pos of (Some e, b1) \<Rightarrow> Inl e | (None, b1) \<Rightarrow> Inr b1)"
  by (simp add: Set_def Set_state_def Let_def)

lemma Set_state_error:
  assumes "pos <s n b"
  shows "Set_state b pos = (Some ErrInvalidBitSet, b)"
  using assms by (simp add: Set_state_def)

lemma Set_state_error_iff:
  assumes "lastrlw b < 0 \<or> nat (lastrlw b) < length (w b)"
  shows "fst (Set_state b pos) = Some ErrInvalidBitSet \<longleftrightarrow> pos <s n b"
  using assms by (auto simp add: Set_state_def Let_def)

lemma Set_state_success:
  assumes "lastrlw b < 0 \<or> nat (lastrlw b) < length (w b)" and "\<not> pos <s n b"
  shows "\<exists>b1. Set_state b pos = (None, b1) \<and> n b1 = pos + 1"
  using assms by (auto simp add: Set_state_def Let_def n_Set_inside n_Set_beyond)

lemma Set_state_None_n: "Set_state b pos = (None, b1) \<Longrightarrow> n b1 = pos + 1"
  by (auto simp add: Set_state_def Let_def n_Set_inside n_Set_beyond split: if_splits)

lemma Set_state_rejects_lower:
  assumes "Set_state b p2 = (None, b1)" and "p1 <s p2" and "sint p2 < 2 ^ 63 - 1"
  shows "Set_state b1 p1 = (Some ErrInvalidBitSet, b1)"
proof -
  have "sint (n b1) = sint p2 + 1"
    using assms(1,3) by (simp add: Set_state_None_n sint_Suc)
  moreover have "sint p1 < sint p2"
    using assms(2) by (simp add: word_sless_alt)
  ultimately have "p1 <s n b1"
    by (simp add: word_sless_alt)
  then show ?thesis
    by (rule Set_state_error)
qed

section \<open>Facts about the serializer\<close>

lemma uint_ucast_64_32: "uint (ucast (x :: int64) :: uint32) = sint x mod 2 ^ 32"
proof -
  have "sint x mod 2 ^ 32 = take_bit 32 (signed_take_bit 63 (uint x))"
    by (simp add: sint_uint take_bit_eq_mod)
  also have "\<dots> = take_bit 32 (uint x)"
    by (simp add: take_bit_signed_take_bit)
  finally show ?thesis
    by (simp add: unsigned_ucast_eq)
qed

lemma length_PutUint32: "length (PutUint32 bo v) = 4"
  by (cases bo) (simp_all add: PutUint32_def)

lemma length_PutUint64: "length (PutUint64 bo v) = 8"
  by (cases bo) (simp_all add: PutUint64_def)

section \<open>Facts about the branches of Set\<close>

lemma allones_eq: "allones = - 1"
  by (simp add: allones_def)



lemma ucast_MaxUint32: "(ucast MaxUint32 :: int64) = 0xFFFFFFFF"
  by code_simp

lemma ucast_minus_2p32: "(ucast (k - 4294967296 :: int64) :: uint32) = ucast k"
proof -
  have "(uint k - 2 ^ 32) mod 2 ^ 64 mod 2 ^ 32 = (uint k - 2 ^ 32) mod (2 ^ 32 :: int)"
    by (rule mod_mod_cancel) simp
  then have "uint (ucast (k - 4294967296 :: int64) :: uint32) = uint (ucast k :: uint32)"
    by (simp add: unsigned_ucast_eq uint_word_ariths take_bit_eq_mod)
  then show ?thesis
    by (simp add: word_uint_eq_iff)
qed

lemma Set_beyond_overflow:
  assumes "nat (lastrlw b) < length (w b)"
    and "0 <s int64_div (pos - size_bits b) 64"
    and "\<not> ucast (rlw_k (w b ! nat (lastrlw b))) + int64_div (pos - size_bits b) 64 \<le>s 0xFFFFFFFF"
  shows "Set_beyond b pos =
     \<lparr>n = pos + 1,
      w = w b @ [newRlw False (ucast (int64_div (pos - size_bits b) 64)) 1,
                 setbit 0 (int64_rem pos 64)],
      lastrlw = int (length (w b))\<rparr>"
proof -
  have "int64_div (pos - size_bits b) 64 \<noteq> 0"
    using assms(2) by auto
  then show ?thesis
    using assms
    by (simp add: Set_beyond_def Let_def ucast_MaxUint32 ucast_minus_2p32
        list_update_append)
qed

lemma uint_ucast_small:
  fixes k :: int64
  assumes "0 <s k" and "k \<le>s 0xFFFFFFFF"
  shows "uint (ucast k :: uint32) = sint k"
proof -
  have "0 < sint k" "sint k \<le> 4294967295"
    using assms by (simp_all add: word_sless_alt word_sle_eq)
  then have "sint k mod 2 ^ 32 = sint k"
    by simp
  then show ?thesis
    by (simp add: uint_ucast_64_32)
qed

section \<open>The active index stays inside the word array\<close>

lemma setbit_allones_rlw_l:
  assumes "setbit r idx = allones"
  shows "rlw_l r \<noteq> 1"
proof
  assume l: "rlw_l r = 1"
  have "\<not> bit (rlw_l r) 1" and "\<not> bit (rlw_l r) 2"
    unfolding l by simp_all
  then have r: "\<not> bit r 1" "\<not> bit r 2"
    by (simp_all add: bit_rlw_l)
  have "bit (setbit r idx) 1" and "bit (setbit r idx) 2"
    unfolding assms allones_def by (simp_all add: bit_simps)
  with r have "unat (64 - idx - 1) = 1" and "unat (64 - idx - 1) = 2"
    by (auto simp add: setbit_def shl64_def bit_simps)
  then show False
    by simp
qed

lemma Set_inside_active:
  assumes "0 \<le> lastrlw b" and "nat (lastrlw b) < length (w b)"
  shows "0 \<le> lastrlw (Set_inside b pos)
    \<and> nat (lastrlw (Set_inside b pos)) < length (w (Set_inside b pos))"
proof (cases "nat (lastrlw b) = length (w b) - 1")
  case True
  then have "rlw_l (w b ! nat (lastrlw b)) \<noteq> 1"
    if "(w b)[length (w b) - 1 := setbit (w b ! (length (w b) - 1)) (int64_rem pos 64)]
        ! (length (w b) - 1) = allones"
    using that assms(2) by (simp add: setbit_allones_rlw_l)
  then show ?thesis
    using assms by (auto simp add: Set_inside_def Let_def)
next
  case False
  then have "nat (lastrlw b) < length (w b) - 1"
    using assms(2) by simp
  then show ?thesis
    using assms by (auto simp add: Set_inside_def Let_def)
qed

lemma Set_beyond_active:
  assumes "0 \<le> lastrlw b" and "nat (lastrlw b) < length (w b)"
  shows "0 \<le> lastrlw (Set_beyond b pos)
    \<and> nat (lastrlw (Set_beyond b pos)) < length (w (Set_beyond b pos))"
  using assms by (auto simp add: Set_beyond_def Let_def)

lemma Set_active:
  assumes "Set b pos = Inr b1"
  shows "0 \<le> lastrlw b1 \<and> nat (lastrlw b1) < length (w b1)"
proof -
  let ?b = "if lastrlw b < 0 then b\<lparr>w := w b @ [newRlw False 0 0], lastrlw := 0\<rparr> else b"
  have ok: "0 \<le> lastrlw ?b" "nat (lastrlw ?b) < length (w ?b)"
    using assms by (auto simp add: Set_def Let_def split: if_splits)
  have "b1 = Set_inside ?b pos \<or> b1 = Set_beyond ?b pos"
    using assms by (auto simp add: Set_def Let_def split: if_splits)
  then show ?thesis
    using Set_inside_active [OF ok] Set_beyond_active [OF ok] by auto
qed

lemma SetAll_active:
  assumes "SetAll b ps = Inr b1" and "ps \<noteq> []"
  shows "0 \<le> lastrlw b1 \<and> nat (lastrlw b1) < length (w b1)"
  using assms
proof (induction ps arbitrary: b)
  case Nil
  then show ?case by simp
next
  case (Cons p ps)
  then obtain b2 where b2: "Set b p = Inr b2" "SetAll b2 ps = Inr b1"
    by (auto split: sum.splits)
  show ?case
  proof (cases "ps = []")
    case True
    with b2 show ?thesis
      using Set_active by auto
  next
    case False
    with b2 Cons.IH show ?thesis
      by blast
  qed
qed

section \<open>Reading back what Write wrote\<close>

lemma readUint32_PutUint32: "readUint32 (PutUint32 bo v @ r) bo = Some (v, r)"
  by (simp add: readUint32_def length_PutUint32 Uint32_PutUint32)

lemma readUint32_PutUint32_end: "readUint32 (PutUint32 bo v) bo = Some (v, [])"
  using readUint32_PutUint32 [of bo v "[]"] by simp

lemma readUint64_PutUint64: "readUint64 (PutUint64 bo v @ r) bo = Some (v, r)"
  by (simp add: readUint64_def length_PutUint64 Uint64_PutUint64)

lemma read_words_written:
  "read_words (length ws) (concat (map (PutUint64 bo) ws) @ r) bo i = Inr (ws, r)"
  by (induction ws arbitrary: i) (simp_all add: readUint64_PutUint64)

lemma FromReader_Write:
  assumes "length (w b) < 2 ^ 32"
  shows "FromReader (fst (Write b bo)) bo
    = Inr \<lparr>n = ucast (Bits b), w = w b, lastrlw = uint (word_of_int (lastrlw b) :: uint32)\<rparr>"
proof -
  have "unat (word_of_nat (length (w b)) :: uint32) = length (w b)"
    using assms by (simp add: unat_of_nat)
  then show ?thesis
    by (simp add: FromReader_def Write_def readUint32_PutUint32 readUint32_PutUint32_end
        read_words_written)
qed

lemma ucast_Bits:
  assumes "uint (n b) < 2 ^ 32"
  shows "(ucast (Bits b) :: int64) = n b"
proof -
  have "take_bit 32 (n b) = n b"
    using assms by (simp add: take_bit_eq_mask mask_eq_iff)
  moreover have "(ucast (ucast (n b) :: uint32) :: int64) = take_bit 32 (n b)"
    by (rule bit_eqI) (auto simp add: bit_simps)
  ultimately show ?thesis
    by (simp add: Bits_def)
qed

lemma uint_word_of_int_32:
  assumes "0 \<le> i" and "i < 2 ^ 32"
  shows "uint (word_of_int i :: uint32) = i"
  using assms by (simp add: uint_word_of_int take_bit_eq_mod)

section \<open>A literal count at its maximum\<close>

lemma size_bits_full:
  "size_bits \<lparr>n = 137438953345, w = ws, lastrlw = 0\<rparr> = 137438953408"
proof -
  have "int64_div 137438953345 64 = 2147483646" and "int64_rem 137438953345 64 = 1"
    by code_simp+
  then show ?thesis
    by (simp add: size_bits_def)
qed

lemma Set_literal_count_wraps:
  "Set \<lparr>n = 137438953345, w = newRlw False 0 maxUint31 # lits, lastrlw = 0\<rparr> 137438953472
     = Inr \<lparr>n = 137438953473, w = newRlw False 1 0 # lits @ [0x8000000000000000], lastrlw = 0\<rparr>"
proof -
  let ?b = "\<lparr>n = 137438953345, w = newRlw False 0 maxUint31 # lits, lastrlw = 0\<rparr>"
  have c1: "\<not> (137438953472 :: int64) <s 137438953345"
    and c2: "\<not> (137438953472 :: int64) <s 137438953408"
    by code_simp+
  have k: "int64_div (137438953472 - 137438953408) 64 = 1"
    by code_simp
  have c3: "\<not> ((1 :: int64) = 0 \<and> rlw_l (newRlw False 0 maxUint31) + 1 \<le> maxUint31)"
    by code_simp
  have c4: "0 <s (1 :: int64) \<and> ucast (rlw_k (newRlw False 0 maxUint31)) + (1 :: int64) \<le>s ucast MaxUint32"
    by code_simp
  have r1: "setl (setk (newRlw False 0 maxUint31) (rlw_k (newRlw False 0 maxUint31) + ucast (1 :: int64)))
      (rlw_l (setk (newRlw False 0 maxUint31) (rlw_k (newRlw False 0 maxUint31) + ucast (1 :: int64))) + 1)
      = newRlw False 1 0"
    by code_simp
  have lit: "setbit 0 (int64_rem 137438953472 64) = 0x8000000000000000"
    by code_simp
  have "Set_beyond ?b 137438953472
      = \<lparr>n = 137438953473, w = newRlw False 1 0 # lits @ [0x8000000000000000], lastrlw = 0\<rparr>"
    unfolding Set_beyond_def Let_def
    by (simp only: size_bits_full k c3 c4 r1 lit if_True if_False Bitmap.simps nat_0 nth_Cons_0
        list_update_code append_Cons) simp
  then show ?thesis
    using c1 c2 by (simp add: Set_def size_bits_full)
qed

lemma last_block_step:
  assumes "i < length ws" and "rlw_l (ws ! i) = 0"
  shows "last_block ws i prev = last_block ws (Suc i) (int i)"
  using assms last_block.simps [of ws i prev] by simp

lemma last_block_end: "last_block ws (length ws) prev = Some prev"
  using last_block.simps [of ws "length ws" prev] by simp

lemma last_block_literals_only:
  assumes "\<forall>y \<in> set ws. rlw_l y = 0" and "i < length ws"
  shows "last_block ws i prev = Some (int (length ws) - 1)"
  using assms(2)
proof (induction "length ws - i" arbitrary: i prev)
  case 0
  then show ?case by simp
next
  case (Suc d)
  have "rlw_l (ws ! i) = 0"
    using assms(1) Suc.prems by simp
  then have step: "last_block ws i prev = last_block ws (Suc i) (int i)"
    using Suc.prems by (rule last_block_step [rotated])
  show ?case
  proof (cases "Suc i < length ws")
    case True
    moreover have "d = length ws - Suc i"
      using Suc.hyps(2) by simp
    ultimately have "last_block ws (Suc i) (int i) = Some (int (length ws) - 1)"
      by (rule Suc.hyps(1) [rotated])
    with step show ?thesis
      by simp
  next
    case False
    then have e: "Suc i = length ws"
      using Suc.prems by simp
    then have "last_block ws (Suc i) (int i) = Some (int i)"
      by (simp add: last_block_end)
    with step e show ?thesis
      by auto
  qed
qed

lemma last_block_one_block:
  assumes "unat (rlw_l r) = length lits"
  shows "last_block (r # lits) 0 prev = Some 0"
proof -
  have "last_block (r # lits) 0 prev = last_block (r # lits) (length (r # lits)) 0"
    using assms last_block.simps [of "r # lits" 0 prev] by simp
  then show ?thesis
    by (simp only: last_block_end)
qed

lemma rlw_l_evals:
  "rlw_l (newRlw False 0 maxUint31) = maxUint31"
  "rlw_l (newRlw False 1 0) = 0"
  "rlw_k (newRlw False 1 0) = 1"
  "rlw_l (0x8000000000000000 :: uint64) = 0"
  by code_simp+

lemma unat_maxUint31: "unat maxUint31 = 2147483647"
  by (simp add: maxUint31_def mask_eq_exp_minus_1)

lemma walk_before:
  "last_block (newRlw False 0 maxUint31 # replicate 2147483647 0x8000000000000000) 0 (- 1) = Some 0"
proof (rule last_block_one_block)
  show "unat (rlw_l (newRlw False 0 maxUint31)) = length (replicate 2147483647 (0x8000000000000000 :: uint64))"
    by (simp only: rlw_l_evals(1) unat_maxUint31 length_replicate)
qed

lemma walk_after_generic:
  assumes "\<forall>y \<in> set lits. rlw_l y = 0" and "rlw_l x = 0" and "rlw_l r = 0"
  shows "last_block (r # lits @ [x]) 0 prev = Some (int (length lits) + 1)"
proof -
  have "last_block (r # lits @ [x]) 0 prev = Some (int (length (r # lits @ [x])) - 1)"
    using assms by (intro last_block_literals_only) auto
  then show ?thesis
    by simp
qed

lemma walk_after:
  "last_block (newRlw False 1 0 # replicate 2147483647 0x8000000000000000 @ [0x8000000000000000])
     0 (- 1) = Some 2147483648"
proof -
  have "\<forall>y \<in> set (replicate 2147483647 (0x8000000000000000 :: uint64)). rlw_l y = 0"
    by (auto simp only: in_set_replicate rlw_l_evals(4))
  then have "last_block
      (newRlw False 1 0 # replicate 2147483647 0x8000000000000000 @ [0x8000000000000000]) 0 (- 1)
      = Some (int (length (replicate 2147483647 (0x8000000000000000 :: uint64))) + 1)"
    using rlw_l_evals(4) rlw_l_evals(2) by (rule walk_after_generic)
  also have "int (length (replicate 2147483647 (0x8000000000000000 :: uint64))) + 1 = 2147483648"
    by (simp only: length_replicate)
  finally show ?thesis .
qed

section \<open>Building a block with the largest literal count\<close>

lemma sint_word_of_int_small:
  assumes "0 \<le> k" and "k < 2 ^ 62"
  shows "sint (word_of_int k :: int64) = k"
proof -
  have "- (2 ^ 63) \<le> k" and "k < 2 ^ 63"
    using assms by simp_all
  then show ?thesis
    by (simp add: sint_sbintrunc' signed_take_bit_int_eq_self)
qed

lemma sint_chunk_start:
  assumes "j < 2 ^ 32"
  shows "sint (64 * word_of_nat j :: int64) = 64 * int j"
proof -
  have "(64 * word_of_nat j :: int64) = word_of_int (64 * int j)"
    by simp
  moreover have "64 * int j < 2 ^ 62"
    using assms by simp
  ultimately show ?thesis
    by (simp only: sint_word_of_int_small)
qed

lemma sint_chunk_start_Suc:
  assumes "j < 2 ^ 32"
  shows "sint (64 * word_of_nat j + 1 :: int64) = 64 * int j + 1"
proof -
  have "sint (64 * word_of_nat j :: int64) < 2 ^ 63 - 1"
    using assms by (simp add: sint_chunk_start)
  then show ?thesis
    using assms by (simp add: sint_Suc sint_chunk_start)
qed

lemma sdiv_smod_nonneg:
  fixes k :: int
  assumes "0 \<le> k"
  shows "k sdiv 64 = k div 64" and "k smod 64 = k mod 64"
  using assms by (cases "k = 0"; simp add: signed_divide_int_def signed_modulo_int_def sgn_if)+

lemma size_bits_chunk:
  assumes "n b = 64 * word_of_nat j + 1" and "j < 2 ^ 32"
  shows "size_bits b = 64 * word_of_nat (Suc j)"
proof -
  have s: "sint (n b) = 64 * int j + 1"
    using assms by (simp add: sint_chunk_start_Suc)
  have "(64 * int j + 1) div 64 = int j" and "(64 * int j + 1) mod 64 = 1"
    by simp_all
  then have "int64_div (n b) 64 = word_of_nat j" and "int64_rem (n b) 64 = 1"
    by (simp_all add: int64_div_def int64_rem_def s sdiv_smod_nonneg)
  then show ?thesis
    by (simp add: size_bits_def)
qed

lemma int64_rem_chunk_start:
  assumes "j < 2 ^ 32"
  shows "int64_rem (64 * word_of_nat j) 64 = 0"
  using assms by (simp add: int64_rem_def sint_chunk_start sdiv_smod_nonneg)

lemma of_nat_le_maxUint31:
  assumes "m \<le> 2147483647"
  shows "(word_of_nat m :: uint32) \<le> maxUint31"
proof -
  have "unat maxUint31 = 2147483647"
    by (simp add: maxUint31_def mask_eq_exp_minus_1)
  moreover have "unat (word_of_nat m :: uint32) = m"
    using assms by (simp add: unat_of_nat)
  ultimately show ?thesis
    using assms by (simp add: word_le_nat_alt)
qed

lemma Set_next_chunk:
  assumes "Suc (Suc j) \<le> 2147483647"
  shows "Set \<lparr>n = 64 * word_of_nat j + 1, w = newRlw False 0 (word_of_nat (Suc j)) # lits, lastrlw = 0\<rparr>
        (64 * word_of_nat (Suc j))
     = Inr \<lparr>n = 64 * word_of_nat (Suc j) + 1,
            w = newRlw False 0 (word_of_nat (Suc (Suc j))) # lits @ [0x8000000000000000],
            lastrlw = 0\<rparr>"
proof -
  let ?r = "newRlw False 0 (word_of_nat (Suc j))"
  let ?b = "\<lparr>n = 64 * word_of_nat j + 1, w = ?r # lits, lastrlw = 0\<rparr>"
  let ?pos = "64 * word_of_nat (Suc j) :: int64"
  have j: "j < 2 ^ 32" "Suc j < 2 ^ 32"
    using assms by simp_all
  have sz: "size_bits ?b = ?pos"
    by (rule size_bits_chunk [OF _ j(1)]) simp
  have sp: "sint ?pos = 64 * int (Suc j)"
    by (rule sint_chunk_start [OF j(2)])
  have sn: "sint (n ?b) = 64 * int j + 1"
    by (simp only: Bitmap.select_convs sint_chunk_start_Suc [OF j(1)])
  have c1: "\<not> ?pos <s n ?b"
    unfolding word_sless_alt sp sn by simp
  have c2: "\<not> ?pos <s ?pos"
    by simp
  have k: "int64_div (?pos - ?pos) 64 = 0"
    by (simp add: int64_div_def)
  have l: "rlw_l ?r = word_of_nat (Suc j)"
    using assms by (intro rlw_l_newRlw of_nat_le_maxUint31) simp
  have l1: "word_of_nat (Suc j) + 1 = (word_of_nat (Suc (Suc j)) :: uint32)"
    by simp
  have le: "(word_of_nat (Suc (Suc j)) :: uint32) \<le> maxUint31"
    using assms by (rule of_nat_le_maxUint31)
  have r1: "setl ?r (rlw_l ?r + 1) = newRlw False 0 (word_of_nat (Suc (Suc j)))"
  proof -
    have "(word_of_nat (Suc j) :: uint32) \<le> maxUint31"
      using assms by (intro of_nat_le_maxUint31) simp
    then have "rlw_k ?r = 0"
      by (rule rlw_k_newRlw)
    moreover have "rlw_b ?r = False"
      by (rule rlw_b_newRlw)
    ultimately show ?thesis
      unfolding l l1 by (simp only: setl_eq_newRlw [OF le])
  qed
  have c3: "rlw_l ?r + 1 \<le> maxUint31"
    unfolding l l1 by (rule le)
  have lit: "setbit 0 (int64_rem ?pos 64) = 0x8000000000000000"
  proof -
    have "setbit 0 0 = 0x8000000000000000"
      by code_simp
    then show ?thesis
      by (simp only: int64_rem_chunk_start [OF j(2)])
  qed
  have "Set_beyond ?b ?pos
      = \<lparr>n = ?pos + 1, w = newRlw False 0 (word_of_nat (Suc (Suc j))) # lits @ [0x8000000000000000],
         lastrlw = 0\<rparr>"
    unfolding Set_beyond_def Let_def
    by (simp only: sz k c3 r1 lit if_True simp_thms Bitmap.simps nat_0 nth_Cons_0
        list_update_code append_Cons)
  then show ?thesis
    using c1 c2 by (simp add: Set_def sz del: of_nat_Suc)
qed

lemma SetAll_append:
  "SetAll b (ps @ qs) = (case SetAll b ps of Inl e \<Rightarrow> Inl e | Inr b1 \<Rightarrow> SetAll b1 qs)"
  by (induction ps arbitrary: b) (auto split: sum.splits)

lemma Set_New_0:
  "Set New 0 = Inr \<lparr>n = 1, w = [newRlw False 0 1, 0x8000000000000000], lastrlw = 0\<rparr>"
  by code_simp

lemma SetAll_chunk_starts:
  assumes "Suc j \<le> 2147483647"
  shows "SetAll New (map (\<lambda>i. 64 * word_of_nat i) [0..<Suc j])
     = Inr \<lparr>n = 64 * word_of_nat j + 1,
            w = newRlw False 0 (word_of_nat (Suc j)) # replicate (Suc j) 0x8000000000000000,
            lastrlw = 0\<rparr>"
  using assms
proof (induction j)
  case 0
  show ?case
    by (simp add: Set_New_0)
next
  case (Suc j)
  let ?f = "\<lambda>i. 64 * word_of_nat i :: int64"
  let ?x = "0x8000000000000000 :: uint64"
  have split: "map ?f [0..<Suc (Suc j)] = map ?f [0..<Suc j] @ [?f (Suc j)]"
    by (simp only: upt_Suc_append [OF le0] map_append list.map)
  have ih: "SetAll New (map ?f [0..<Suc j])
     = Inr \<lparr>n = 64 * word_of_nat j + 1,
            w = newRlw False 0 (word_of_nat (Suc j)) # replicate (Suc j) ?x, lastrlw = 0\<rparr>"
    using Suc.prems by (intro Suc.IH) simp
  have rep: "replicate (Suc j) ?x @ [?x] = replicate (Suc (Suc j)) ?x"
    by (simp add: replicate_append_same)
  have step: "Set \<lparr>n = 64 * word_of_nat j + 1,
            w = newRlw False 0 (word_of_nat (Suc j)) # replicate (Suc j) ?x, lastrlw = 0\<rparr>
        (?f (Suc j))
     = Inr \<lparr>n = 64 * word_of_nat (Suc j) + 1,
            w = newRlw False 0 (word_of_nat (Suc (Suc j))) # replicate (Suc (Suc j)) ?x,
            lastrlw = 0\<rparr>"
    using Set_next_chunk [OF Suc.prems, of "replicate (Suc j) ?x"] by (simp only: rep)
  show ?case
    by (simp only: split SetAll_append ih sum.case SetAll.simps step)
qed

lemma SetAll_all_literals:
  "SetAll New (map (\<lambda>i. 64 * word_of_nat i) [0..<2147483647])
     = Inr \<lparr>n = 137438953345,
            w = newRlw False 0 maxUint31 # replicate 2147483647 0x8000000000000000,
            lastrlw = 0\<rparr>"
proof -
  have e1: "Suc 2147483646 = 2147483647"
    by simp
  have e2: "(64 * word_of_nat 2147483646 + 1 :: int64) = 137438953345"
    by simp
  have e3: "(word_of_nat 2147483647 :: uint32) = maxUint31"
    by (simp add: maxUint31_def mask_eq_exp_minus_1)
  have "Suc 2147483646 \<le> 2147483647"
    by simp
  from SetAll_chunk_starts [OF this] show ?thesis
    unfolding e1 e2 e3 .
qed

lemma SetAll_after_gap:
  "SetAll New (map (\<lambda>i. 64 * word_of_nat i) [0..<2147483647] @ [137438953472])
     = Inr \<lparr>n = 137438953473,
            w = newRlw False 1 0 # replicate 2147483647 0x8000000000000000 @ [0x8000000000000000],
            lastrlw = 0\<rparr>"
  by (simp only: SetAll_append SetAll_all_literals sum.case SetAll.simps Set_literal_count_wraps)

section \<open>The claims\<close>

subsection \<open>C1: reading back what was written\<close>

text \<open>
  Claim C1 (write-then-read identity): for a bitmap built from empty by successful
  \<^verbatim>\<open>Set\<close> calls at ascending positions and every position \<open>p\<close> below the bit count,
  \<^verbatim>\<open>Get(p)\<close> is true exactly when \<open>p\<close> was passed to a successful \<^verbatim>\<open>Set\<close>.

  The code does not do this. When a gap of \<open>k > 0\<close> zero chunks follows a block that
  already has literal words, \<^verbatim>\<open>Set\<close> adds \<open>k\<close> to the run count of the active RLW, and
  the run of an RLW stands before its literal words: after \<^verbatim>\<open>Set(0)\<close> and \<^verbatim>\<open>Set(128)\<close>
  the words are \<open>RLW(0, 1, 2)\<close> and two literals, so bit 0 reads as 0 and bit 64, never
  set, reads as 1. A second defect: a gap of \<open>2^32\<close> chunks or more is cut to its low 32
  bits, so after \<^verbatim>\<open>Set(2^38)\<close> on the empty bitmap the bit \<open>2^38\<close> reads as 0.
\<close>

theorem Set_gap_misplaces_bits:
  "SetAll New [0, 128]
     = Inr \<lparr>n = 129, w = [newRlw False 1 2, 0x8000000000000000, 0x8000000000000000], lastrlw = 0\<rparr>
   \<and> Get \<lparr>n = 129, w = [newRlw False 1 2, 0x8000000000000000, 0x8000000000000000], lastrlw = 0\<rparr> 0
     = Inr False
   \<and> Get \<lparr>n = 129, w = [newRlw False 1 2, 0x8000000000000000, 0x8000000000000000], lastrlw = 0\<rparr> 64
     = Inr True
   \<and> SetAll New [274877906944]
     = Inr \<lparr>n = 274877906945, w = [newRlw False 0 0, newRlw False 0 1, 0x8000000000000000],
            lastrlw = 1\<rparr>
   \<and> Get \<lparr>n = 274877906945, w = [newRlw False 0 0, newRlw False 0 1, 0x8000000000000000],
            lastrlw = 1\<rparr> 274877906944
     = Inr False"
  by code_simp

subsection \<open>C2: serializing and reading back\<close>

text \<open>
  Claim C2 (round trip): for every bitmap built from empty by a valid sequence of
  ascending \<^verbatim>\<open>Set\<close> calls, the empty sequence included, reading the bytes that \<^verbatim>\<open>Write\<close>
  produced gives the same bitmap back: same bit count, same words, same active index.

  This fails for the empty bitmap, whose active index \<open>-1\<close> is written as the 32-bit
  value \<open>2^32 - 1\<close> and read back as \<open>4294967295\<close>, and for a bit count of \<open>2^32\<close> or
  more, of which only the low 32 bits are written (after \<^verbatim>\<open>Set(2^32)\<close> the bit count
  \<open>2^32 + 1\<close> is read back as 1).
\<close>

theorem Write_FromBytes_roundtrip_counterexample:
  "SetAll New [] = Inr New
   \<and> FromBytes (fst (Write New BigEndian)) BigEndian = Inr \<lparr>n = 0, w = [], lastrlw = 4294967295\<rparr>
   \<and> \<lparr>n = 0, w = [], lastrlw = 4294967295\<rparr> \<noteq> New
   \<and> SetAll New [4294967296]
     = Inr \<lparr>n = 4294967297, w = [newRlw False 67108864 1, 0x8000000000000000], lastrlw = 0\<rparr>
   \<and> FromBytes (fst (Write \<lparr>n = 4294967297, w = [newRlw False 67108864 1, 0x8000000000000000],
            lastrlw = 0\<rparr> BigEndian)) BigEndian
     = Inr \<lparr>n = 1, w = [newRlw False 67108864 1, 0x8000000000000000], lastrlw = 0\<rparr>"
proof -
  have "FromBytes (fst (Write New BigEndian)) BigEndian
      = Inr \<lparr>n = 0, w = [], lastrlw = 4294967295\<rparr>"
    by code_simp
  moreover have "\<lparr>n = 0, w = [], lastrlw = 4294967295\<rparr> \<noteq> New"
    by (simp add: New_def)
  moreover have "SetAll New [4294967296]
     = Inr \<lparr>n = 4294967297, w = [newRlw False 67108864 1, 0x8000000000000000], lastrlw = 0\<rparr>"
    by code_simp
  moreover have "FromBytes (fst (Write \<lparr>n = 4294967297,
            w = [newRlw False 67108864 1, 0x8000000000000000], lastrlw = 0\<rparr> BigEndian)) BigEndian
     = Inr \<lparr>n = 1, w = [newRlw False 67108864 1, 0x8000000000000000], lastrlw = 0\<rparr>"
    by code_simp
  ultimately show ?thesis
    by simp
qed

text \<open>
  Claim C2 as amended: for every bitmap built from empty by a non-empty sequence of
  successful \<^verbatim>\<open>Set\<close> calls whose bit count lies in \<open>[0, 2^32)\<close> and whose word array
  has fewer than \<open>2^32\<close> words, reading the bytes that \<^verbatim>\<open>Write\<close> produced, in the
  same byte order, gives the same bitmap back: same bit count, same words, same active
  index.
\<close>

theorem Write_FromBytes_roundtrip:
  assumes "SetAll New ps = Inr b" and "ps \<noteq> []"
    and "uint (n b) < 2 ^ 32" and "length (w b) < 2 ^ 32"
  shows "FromBytes (fst (Write b bo)) bo = Inr b"
proof -
  have "0 \<le> lastrlw b" and "nat (lastrlw b) < length (w b)"
    using SetAll_active [OF assms(1,2)] by simp_all
  with assms(4) have "nat (lastrlw b) < 2 ^ 32"
    by simp
  then have "lastrlw b < 2 ^ 32"
    by (simp add: nat_less_iff)
  with \<open>0 \<le> lastrlw b\<close> have "uint (word_of_int (lastrlw b) :: uint32) = lastrlw b"
    by (rule uint_word_of_int_32)
  then show ?thesis
    by (simp add: FromBytes_def FromReader_Write [OF assms(4)] ucast_Bits [OF assms(3)])
qed

theorem Write_FromBytes_roundtrip_witness:
  "SetAll New [378, 441] = Inr \<lparr>n = 442, w = [newRlw False 5 2, 32, 64], lastrlw = 0\<rparr>
   \<and> FromBytes (fst (Write \<lparr>n = 442, w = [newRlw False 5 2, 32, 64], lastrlw = 0\<rparr> BigEndian))
        BigEndian
     = Inr \<lparr>n = 442, w = [newRlw False 5 2, 32, 64], lastrlw = 0\<rparr>"
proof -
  let ?b = "\<lparr>n = 442, w = [newRlw False 5 2, 32, 64], lastrlw = 0\<rparr>"
  have h1: "SetAll New [378, 441] = Inr ?b"
    by code_simp
  have h2: "[378, 441 :: int64] \<noteq> []"
    by simp
  have h3: "uint (n ?b) < 2 ^ 32" and h4: "length (w ?b) < 2 ^ 32"
    by simp_all
  show ?thesis
    using h1 Write_FromBytes_roundtrip [OF h1 h2 h3 h4] by simp
qed

subsection \<open>C3: the contract of Set\<close>

text \<open>
  Claim C3: for every bitmap and every position, \<^verbatim>\<open>Set(pos)\<close> returns the out-of-order
  error exactly when \<open>pos\<close> is below the bit count, leaving the bitmap unmodified;
  otherwise it succeeds and the bit count becomes \<open>pos + 1\<close>; hence after \<^verbatim>\<open>Set(p2)\<close>
  succeeded, \<^verbatim>\<open>Set(p1)\<close> fails for every \<open>p1 < p2\<close>.

  As stated this fails in two places. A bitmap whose active index is not negative and
  lies outside the word array (such as the one read back from the serialized empty
  bitmap) makes \<^verbatim>\<open>Set\<close> panic on \<^verbatim>\<open>b.w[b.lastrlw]\<close> instead of succeeding. And at
  \<open>pos = 2^63 - 1\<close> the new bit count \<open>pos + 1\<close> wraps to \<open>-2^63\<close>, after which every
  position is accepted again.
\<close>

theorem Set_contract_counterexample:
  "FromBytes (fst (Write New BigEndian)) BigEndian = Inr \<lparr>n = 0, w = [], lastrlw = 4294967295\<rparr>
   \<and> \<not> 0 <s n \<lparr>n = 0, w = [], lastrlw = 4294967295\<rparr>
   \<and> Set \<lparr>n = 0, w = [], lastrlw = 4294967295\<rparr> 0 = Inl IndexOutOfRange
   \<and> Set New 0x7FFFFFFFFFFFFFFF
       = Inr \<lparr>n = 0x8000000000000000,
              w = [newRlw False 0 0, newRlw False 0xFFFFFFFF 1, 1], lastrlw = 1\<rparr>
   \<and> sint (n \<lparr>n = 0x8000000000000000,
              w = [newRlw False 0 0, newRlw False 0xFFFFFFFF 1, 1], lastrlw = 1\<rparr>) = - (2 ^ 63)
   \<and> 0 <s (0x7FFFFFFFFFFFFFFF :: int64)
   \<and> Set \<lparr>n = 0x8000000000000000,
              w = [newRlw False 0 0, newRlw False 0xFFFFFFFF 1, 1], lastrlw = 1\<rparr> 0
       \<noteq> Inl ErrInvalidBitSet"
proof -
  have "FromBytes (fst (Write New BigEndian)) BigEndian
      = Inr \<lparr>n = 0, w = [], lastrlw = 4294967295\<rparr>"
    by code_simp
  moreover have "\<not> 0 <s n \<lparr>n = 0, w = [], lastrlw = 4294967295\<rparr>"
    by simp
  moreover have "Set \<lparr>n = 0, w = [], lastrlw = 4294967295\<rparr> 0 = Inl IndexOutOfRange"
    by (simp add: Set_def)
  moreover have "Set New 0x7FFFFFFFFFFFFFFF
       = Inr \<lparr>n = 0x8000000000000000,
              w = [newRlw False 0 0, newRlw False 0xFFFFFFFF 1, 1], lastrlw = 1\<rparr>"
    by code_simp
  moreover have "sint (0x8000000000000000 :: int64) = - (2 ^ 63)"
    by simp
  moreover have "0 <s (0x7FFFFFFFFFFFFFFF :: int64)"
    by code_simp
  moreover have "Set \<lparr>n = 0x8000000000000000,
              w = [newRlw False 0 0, newRlw False 0xFFFFFFFF 1, 1], lastrlw = 1\<rparr> 0
       \<noteq> Inl ErrInvalidBitSet"
    by code_simp
  ultimately show ?thesis
    by simp
qed

text \<open>
  Claim C3 as amended: for every bitmap whose active index is negative or inside the
  word array and every position \<open>pos\<close>, \<^verbatim>\<open>Set(pos)\<close> returns the out-of-order error
  exactly when \<open>pos\<close> is below the bit count, and in that case the bitmap after the
  call is the bitmap before it; when \<open>pos\<close> is at or above the bit count and
  \<open>pos < 2^63 - 1\<close>, \<^verbatim>\<open>Set\<close> succeeds and the bit count becomes \<open>pos + 1\<close>.
  Consequently, for all \<open>p1 < p2 < 2^63 - 1\<close>, after \<^verbatim>\<open>Set(p2)\<close> succeeded,
  \<^verbatim>\<open>Set(p1)\<close> fails with the out-of-order error and changes nothing.
\<close>

theorem Set_contract:
  assumes "lastrlw b < 0 \<or> nat (lastrlw b) < length (w b)"
  shows "(fst (Set_state b pos) = Some ErrInvalidBitSet \<longleftrightarrow> pos <s n b)
    \<and> (pos <s n b \<longrightarrow> Set_state b pos = (Some ErrInvalidBitSet, b) \<and> Set b pos = Inl ErrInvalidBitSet)
    \<and> (\<not> pos <s n b \<and> sint pos < 2 ^ 63 - 1 \<longrightarrow>
         (\<exists>b1. Set_state b pos = (None, b1) \<and> Set b pos = Inr b1 \<and> sint (n b1) = sint pos + 1))
    \<and> (\<forall>p1 p2 b1. p1 <s p2 \<and> sint p2 < 2 ^ 63 - 1 \<and> Set_state b p2 = (None, b1)
         \<longrightarrow> Set_state b1 p1 = (Some ErrInvalidBitSet, b1) \<and> Set b1 p1 = Inl ErrInvalidBitSet)"
proof (intro conjI impI allI)
  show "fst (Set_state b pos) = Some ErrInvalidBitSet \<longleftrightarrow> pos <s n b"
    by (rule Set_state_error_iff [OF assms])
next
  assume "pos <s n b"
  then show "Set_state b pos = (Some ErrInvalidBitSet, b)"
    by (rule Set_state_error)
  then show "Set b pos = Inl ErrInvalidBitSet"
    by (simp add: Set_result_of_state)
next
  assume "\<not> pos <s n b \<and> sint pos < 2 ^ 63 - 1"
  then have a: "\<not> pos <s n b" and s: "sint pos < 2 ^ 63 - 1"
    by simp_all
  obtain b1 where b1: "Set_state b pos = (None, b1)" "n b1 = pos + 1"
    using Set_state_success [OF assms a] by blast
  have "Set b pos = Inr b1"
    using b1(1) by (simp add: Set_result_of_state)
  moreover have "sint (n b1) = sint pos + 1"
    using b1(2) s by (simp add: sint_Suc)
  ultimately show "\<exists>b1. Set_state b pos = (None, b1) \<and> Set b pos = Inr b1
      \<and> sint (n b1) = sint pos + 1"
    using b1(1) by blast
next
  fix p1 p2 b1
  assume "p1 <s p2 \<and> sint p2 < 2 ^ 63 - 1 \<and> Set_state b p2 = (None, b1)"
  then show "Set_state b1 p1 = (Some ErrInvalidBitSet, b1)"
    using Set_state_rejects_lower by blast
  then show "Set b1 p1 = Inl ErrInvalidBitSet"
    by (simp add: Set_result_of_state)
qed

theorem Set_contract_witness:
  "(lastrlw New < 0 \<or> nat (lastrlw New) < length (w New))
   \<and> \<not> 5 <s n New \<and> sint (5 :: int64) < 2 ^ 63 - 1
   \<and> Set_state New 5
       = (None, \<lparr>n = 6, w = [newRlw False 0 1, 0x0400000000000000], lastrlw = 0\<rparr>)
   \<and> sint (n \<lparr>n = 6, w = [newRlw False 0 1, 0x0400000000000000], lastrlw = 0\<rparr>) = sint (5 :: int64) + 1
   \<and> 3 <s (5 :: int64)
   \<and> 3 <s n \<lparr>n = 6, w = [newRlw False 0 1, 0x0400000000000000], lastrlw = 0\<rparr>
   \<and> Set_state \<lparr>n = 6, w = [newRlw False 0 1, 0x0400000000000000], lastrlw = 0\<rparr> 3
       = (Some ErrInvalidBitSet, \<lparr>n = 6, w = [newRlw False 0 1, 0x0400000000000000], lastrlw = 0\<rparr>)
   \<and> Set \<lparr>n = 6, w = [newRlw False 0 1, 0x0400000000000000], lastrlw = 0\<rparr> 3
       = Inl ErrInvalidBitSet"
proof -
  let ?b = "\<lparr>n = 6, w = [newRlw False 0 1, 0x0400000000000000], lastrlw = 0\<rparr>"
  have h: "lastrlw New < 0 \<or> nat (lastrlw New) < length (w New)"
    by (simp add: New_def)
  have g: "lastrlw ?b < 0 \<or> nat (lastrlw ?b) < length (w ?b)"
    by simp
  have s: "Set_state New 5 = (None, ?b)"
    by code_simp
  have p: "\<not> 5 <s n New" "3 <s (5 :: int64)" "3 <s n ?b"
    by code_simp+
  have q: "sint (5 :: int64) < 2 ^ 63 - 1"
    by simp
  have "sint (n ?b) = sint (5 :: int64) + 1"
    by simp
  with s p q show ?thesis
    using h Set_contract [OF h, of 5] Set_contract [OF g, of 3] by blast
qed

subsection \<open>C4: the block structure\<close>

text \<open>
  Claim C4 (block structure): in every bitmap reachable from the empty bitmap by
  successful \<^verbatim>\<open>Set\<close> calls the word array is a concatenation of blocks, one RLW
  followed by exactly as many literal words as its literal count says: walking from
  index 0 in steps of one plus the literal count lands on the active index at the last
  step and never goes past the end of the array.

  The code breaks this when the literal count of the active RLW is at its maximum
  \<open>2^31 - 1\<close> and a \<^verbatim>\<open>Set\<close> needs a gap of \<open>k > 0\<close> chunks: the branch that extends the
  run also adds one to the literal count without testing it, bit 31 of the sum lands in
  the run count and the literal count becomes 0. \<^verbatim>\<open>Set(0)\<close>, \<^verbatim>\<open>Set(64)\<close>, ...,
  \<^verbatim>\<open>Set(64 * (2^31 - 2))\<close> on the empty bitmap build one RLW with \<open>2^31 - 1\<close> literal
  words. Before the call the walk ends on the active index 0.
  After \<^verbatim>\<open>Set(2^37)\<close> the RLW at index 0 says that it has no literal word, the walk
  reads the literal words as RLWs and ends on the last word, index \<open>2^31\<close>, while the
  active index is still 0.
\<close>

theorem Set_literal_overflow_breaks_blocks:
  "SetAll New (map (\<lambda>i. 64 * word_of_nat i) [0..<2147483647])
     = Inr \<lparr>n = 137438953345,
            w = newRlw False 0 maxUint31 # replicate 2147483647 0x8000000000000000,
            lastrlw = 0\<rparr>
   \<and> last_block (newRlw False 0 maxUint31 # replicate 2147483647 0x8000000000000000) 0 (- 1) = Some 0
   \<and> Set \<lparr>n = 137438953345,
          w = newRlw False 0 maxUint31 # replicate 2147483647 0x8000000000000000,
          lastrlw = 0\<rparr> 137438953472
     = Inr \<lparr>n = 137438953473,
            w = newRlw False 1 0 # replicate 2147483647 0x8000000000000000 @ [0x8000000000000000],
            lastrlw = 0\<rparr>
   \<and> SetAll New (map (\<lambda>i. 64 * word_of_nat i) [0..<2147483647] @ [137438953472])
     = Inr \<lparr>n = 137438953473,
            w = newRlw False 1 0 # replicate 2147483647 0x8000000000000000 @ [0x8000000000000000],
            lastrlw = 0\<rparr>
   \<and> last_block (newRlw False 1 0 # replicate 2147483647 0x8000000000000000 @ [0x8000000000000000])
         0 (- 1) = Some 2147483648"
  by (intro conjI SetAll_all_literals walk_before Set_literal_count_wraps SetAll_after_gap walk_after)

subsection \<open>C5: the bounds of the two counts\<close>

text \<open>
  Claim C5: in every reachable bitmap every run count is at most \<open>2^32 - 1\<close> and every
  literal count at most \<open>2^31 - 1\<close>, and whenever extending the active RLW would exceed
  either bound, \<^verbatim>\<open>Set\<close> starts a new RLW block instead of extending the current one.

  The fields cannot hold more than their widths, but the second half fails in the code:
  the branch for a gap of \<open>k > 0\<close> chunks tests the run count only, where the branch
  for \<open>k = 0\<close> tests the literal count. With the literal count of the active RLW at
  \<open>2^31 - 1\<close>, as \<^verbatim>\<open>Set(0)\<close>, \<^verbatim>\<open>Set(64)\<close>, ..., \<^verbatim>\<open>Set(64 * (2^31 - 2))\<close> leave it,
  \<^verbatim>\<open>Set(2^37)\<close> starts no new block: it appends the
  literal word to the same block, whose RLW afterwards reads run count 1 and literal
  count 0 for \<open>2^31\<close> literal words.
\<close>

theorem Set_literal_count_unchecked:
  "SetAll New (map (\<lambda>i. 64 * word_of_nat i) [0..<2147483647])
     = Inr \<lparr>n = 137438953345,
            w = newRlw False 0 maxUint31 # replicate 2147483647 0x8000000000000000,
            lastrlw = 0\<rparr>
   \<and> rlw_l (newRlw False 0 maxUint31) = maxUint31
   \<and> Set \<lparr>n = 137438953345,
          w = newRlw False 0 maxUint31 # replicate 2147483647 0x8000000000000000,
          lastrlw = 0\<rparr> 137438953472
     = Inr \<lparr>n = 137438953473,
            w = newRlw False 1 0 # replicate 2147483647 0x8000000000000000 @ [0x8000000000000000],
            lastrlw = 0\<rparr>
   \<and> rlw_l (newRlw False 1 0) = 0 \<and> rlw_k (newRlw False 1 0) = 1"
  by (intro conjI SetAll_all_literals rlw_l_evals(1,2,3) Set_literal_count_wraps)

subsection \<open>C6: a gap that overflows the run count\<close>

text \<open>
  Claim C6: when \<^verbatim>\<open>Set(pos)\<close> must insert a gap of \<open>k\<close> zero chunks and \<open>k\<close> added to
  the run count of the active RLW exceeds \<open>2^32 - 1\<close>, the active RLW is closed as it
  is and a new RLW with run count \<open>k - (2^32 - 1)\<close> and literal count 1 is appended and
  becomes active, followed by the one-bit literal.

  The run count of the new RLW is not \<open>k - (2^32 - 1)\<close>. For the run at its maximum
  and a gap of one chunk (the input of \<^verbatim>\<open>TestBitmapSetOverflowK\<close>) the new RLW holds
  the run count 1, which is neither \<open>1 - (2^32 - 1)\<close> nor that number modulo \<open>2^32\<close>.
\<close>

theorem Set_run_overflow_counterexample:
  "Set \<lparr>n = 274877906880, w = [newRlw False 0xFFFFFFFF 0], lastrlw = 0\<rparr> 274877907007
     = Inr \<lparr>n = 274877907008, w = [newRlw False 0xFFFFFFFF 0, newRlw False 1 1, 1], lastrlw = 1\<rparr>
   \<and> int64_div (274877907007 - size_bits \<lparr>n = 274877906880, w = [newRlw False 0xFFFFFFFF 0], lastrlw = 0\<rparr>) 64 = 1
   \<and> \<not> ucast (rlw_k (newRlw False 0xFFFFFFFF 0)) + (1 :: int64) \<le>s 0xFFFFFFFF
   \<and> uint (rlw_k (newRlw False 1 1)) = 1
   \<and> uint (rlw_k (newRlw False 1 1)) \<noteq> sint (1 :: int64) - (2 ^ 32 - 1)
   \<and> rlw_k (newRlw False 1 1) \<noteq> word_of_int (sint (1 :: int64) - (2 ^ 32 - 1))"
  by code_simp

text \<open>
  Claim C6 as amended: when \<^verbatim>\<open>Set(pos)\<close> must insert a gap of \<open>k\<close> zero chunks with
  \<open>0 < k \<le> 2^32 - 1\<close> and \<open>k\<close> added to the run count of the active RLW exceeds
  \<open>2^32 - 1\<close>, the word array is kept as it is (the active RLW is closed unchanged) and
  a new RLW with repeated bit 0, run count \<open>k\<close> and literal count 1 is appended and
  becomes the active RLW, followed by the one-bit literal word. In particular a run at
  the maximum run count followed by one more chunk gives two RLWs, the first still at
  the maximum and the second with run count 1.
\<close>

theorem Set_run_overflow:
  assumes "0 \<le> lastrlw b" and "nat (lastrlw b) < length (w b)"
    and "\<not> pos <s n b" and "\<not> pos <s size_bits b"
    and "k = int64_div (pos - size_bits b) 64"
    and "0 <s k" and "k \<le>s 0xFFFFFFFF"
    and "\<not> ucast (rlw_k (w b ! nat (lastrlw b))) + k \<le>s 0xFFFFFFFF"
  shows "Set b pos = Inr \<lparr>n = pos + 1,
      w = w b @ [newRlw False (ucast k) 1, setbit 0 (int64_rem pos 64)],
      lastrlw = int (length (w b))\<rparr>
    \<and> uint (ucast k :: uint32) = sint k"
proof -
  have "Set b pos = Inr (Set_beyond b pos)"
    using assms(1-4) by (simp add: Set_def)
  moreover have "Set_beyond b pos = \<lparr>n = pos + 1,
      w = w b @ [newRlw False (ucast k) 1, setbit 0 (int64_rem pos 64)],
      lastrlw = int (length (w b))\<rparr>"
    using assms(2,6,8) unfolding assms(5) by (rule Set_beyond_overflow)
  ultimately show ?thesis
    using assms(6,7) by (simp add: uint_ucast_small)
qed

theorem Set_run_overflow_witness:
  "Set \<lparr>n = 274877906880, w = [newRlw False 0xFFFFFFFF 0], lastrlw = 0\<rparr> 274877907007
     = Inr \<lparr>n = 274877907007 + 1,
        w = [newRlw False 0xFFFFFFFF 0] @ [newRlw False (ucast (1 :: int64)) 1, setbit 0 (int64_rem 274877907007 64)],
        lastrlw = 1\<rparr>
   \<and> uint (ucast (1 :: int64) :: uint32) = sint (1 :: int64)"
proof -
  let ?b = "\<lparr>n = 274877906880, w = [newRlw False 0xFFFFFFFF 0], lastrlw = 0\<rparr>"
  have h1: "0 \<le> lastrlw ?b" and h2: "nat (lastrlw ?b) < length (w ?b)"
    by simp_all
  have h3: "\<not> 274877907007 <s n ?b" and h4: "\<not> 274877907007 <s size_bits ?b"
    by code_simp+
  have h5: "(1 :: int64) = int64_div (274877907007 - size_bits ?b) 64"
    by code_simp
  have h6: "0 <s (1 :: int64)" and h7: "(1 :: int64) \<le>s 0xFFFFFFFF"
    by code_simp+
  have h8: "\<not> ucast (rlw_k (w ?b ! nat (lastrlw ?b))) + (1 :: int64) \<le>s 0xFFFFFFFF"
    by code_simp
  show ?thesis
    using Set_run_overflow [OF h1 h2 h3 h4 h5 h6 h7 h8] by simp
qed

subsection \<open>C7: a literal word filled to all ones\<close>



subsection \<open>C8: positions never written\<close>

text \<open>
  Claim C8: for every bitmap and every position at or beyond the bit count, \<^verbatim>\<open>Get\<close>
  returns false, with no error.
\<close>

theorem Get_unwritten: "n b \<le>s pos \<Longrightarrow> Get b pos = Inr False"
  by (simp add: Get_def)

theorem Get_unwritten_witness:
  "n \<lparr>n = 640, w = [newRlw False 5 2, 32, 64, newRlw True 1 1, drop_bit 5 (NOT 0), newRlw True 1 0],
       lastrlw = 5\<rparr> \<le>s 0x7FFFFFFFFFFFFFFF
   \<and> Get \<lparr>n = 640, w = [newRlw False 5 2, 32, 64, newRlw True 1 1, drop_bit 5 (NOT 0), newRlw True 1 0],
       lastrlw = 5\<rparr> 0x7FFFFFFFFFFFFFFF = Inr False"
proof -
  have h: "n \<lparr>n = 640, w = [newRlw False 5 2, 32, 64, newRlw True 1 1, drop_bit 5 (NOT 0), newRlw True 1 0],
       lastrlw = 5\<rparr> \<le>s 0x7FFFFFFFFFFFFFFF"
    by simp
  show ?thesis
    using h Get_unwritten [OF h] by simp
qed

subsection \<open>C9: the RLW codec\<close>

text \<open>
  Claim C9: for every bit \<open>b\<close>, every run count \<open>k\<close> (at most \<open>2^32 - 1\<close>, which every
  \<^verbatim>\<open>uint32\<close> is) and every literal count \<open>l\<close> at most \<open>2^31 - 1\<close>, unpacking the word
  packed from \<open>(b, k, l)\<close> gives \<open>(b, k, l)\<close> back; on every word \<^verbatim>\<open>setk\<close> leaves the
  repeated bit and the literal count as they were and \<^verbatim>\<open>setl\<close> leaves the repeated bit
  and the run count as they were, and each stores the value it is given. The bound on
  \<open>l\<close> matters for \<^verbatim>\<open>setl\<close> too: bit 31 of a larger \<open>l\<close> lands in the run count.
\<close>

theorem rlw_codec_roundtrip:
  assumes "unat l \<le> 2 ^ 31 - 1"
  shows "rlw_b (newRlw b k l) = b \<and> rlw_k (newRlw b k l) = k \<and> rlw_l (newRlw b k l) = l
    \<and> rlw_b (setk r k) = rlw_b r \<and> rlw_l (setk r k) = rlw_l r \<and> rlw_k (setk r k) = k
    \<and> rlw_b (setl r l) = rlw_b r \<and> rlw_k (setl r l) = rlw_k r \<and> rlw_l (setl r l) = l"
proof -
  have "unat maxUint31 = 2 ^ 31 - 1"
    by (simp add: maxUint31_def mask_eq_exp_minus_1)
  with assms have "l \<le> maxUint31"
    by (simp add: word_le_nat_alt)
  then show ?thesis
    by (simp add: rlw_b_newRlw rlw_k_newRlw rlw_l_newRlw rlw_b_setk rlw_l_setk rlw_k_setk
        rlw_b_setl rlw_k_setl rlw_l_setl)
qed

theorem rlw_codec_roundtrip_witness:
  "unat (5 :: uint32) \<le> 2 ^ 31 - 1
    \<and> rlw_b (newRlw True 10 5) = True \<and> rlw_k (newRlw True 10 5) = 10
    \<and> rlw_l (newRlw True 10 5) = 5
    \<and> rlw_b (setk (NOT 0) 10) = rlw_b (NOT 0) \<and> rlw_l (setk (NOT 0) 10) = rlw_l (NOT 0)
    \<and> rlw_k (setk (NOT 0) 10) = 10
    \<and> rlw_b (setl (NOT 0) 5) = rlw_b (NOT 0) \<and> rlw_k (setl (NOT 0) 5) = rlw_k (NOT 0)
    \<and> rlw_l (setl (NOT 0) 5) = 5"
proof -
  have h: "unat (5 :: uint32) \<le> 2 ^ 31 - 1"
    by simp
  show ?thesis
    using h rlw_codec_roundtrip [OF h, of True 10 "NOT 0"] by simp
qed

subsection \<open>C10: the bit count on the wire\<close>

text \<open>
  Claim C10: \<^verbatim>\<open>Bits\<close> returns the stored bit count reduced modulo \<open>2^32\<close>, and the
  serializer writes this truncated value as the first four bytes; a bit count above
  \<open>2^32 - 1\<close> therefore wraps around (\<open>2^32 + 5\<close> is reported and written as 5).
\<close>

theorem Bits_wraps:
  "uint (Bits b) = sint (n b) mod 2 ^ 32
   \<and> take 4 (fst (Write b bo)) = PutUint32 bo (Bits b)
   \<and> Uint32 bo (take 4 (fst (Write b bo))) = Bits b
   \<and> Bits (b\<lparr>n := 4294967296 + 5\<rparr>) = 5"
proof -
  have "take 4 (fst (Write b bo)) = PutUint32 bo (Bits b)"
    by (simp add: Write_def length_PutUint32)
  moreover have "Bits (b\<lparr>n := 4294967296 + 5\<rparr>) = 5"
    by (simp add: Bits_def)
  ultimately show ?thesis
    by (simp add: Uint32_PutUint32 uint_ucast_64_32 Bits_def)
qed

end
